theory Spec2Isabelle
  imports Main "HOL-Library.AList" "HOL-Library.Sublist"
begin

section \<open>The values the program handles\<close>

text \<open>
  A message is what \<^verbatim>\<open>JSON.parse\<close> returns: null, a boolean, a number, a string, an
  array or a plain object. An object is the list of its own properties in enumeration
  order (the order of \<^verbatim>\<open>for ... in\<close>, \<^verbatim>\<open>Object.keys\<close> and \<^verbatim>\<open>JSON.stringify\<close>); a
  JavaScript object has each key once, which \<open>wf_json\<close> below states.

  A number is carried as the text \<^verbatim>\<open>Number.prototype.toString\<close> gives for it
  (\<open>''23.1''\<close>, \<open>''1e+21''\<close>, \<open>''Infinity''\<close>, \<open>''NaN''\<close>). That text determines the number up
  to the sign of zero, and nothing in the program tells \<open>-0\<close> from \<open>0\<close>, so both are
  \<open>''0''\<close>. No arithmetic is done on numbers anywhere in the program.
\<close>

datatype json =
    JNull
  | JBool bool
  | JNum string
  | JStr string
  | JArr "json list"
  | JObj "(string \<times> json) list"

text \<open>
  Reading a property can leave the message: a key that is not an own property is looked
  up on the prototype chain. The values that can come back are \<^verbatim>\<open>undefined\<close>, one of
  the built-in prototype objects (through the inherited accessor \<^verbatim>\<open>__proto__\<close>), or a
  built-in method. A method is a function: its \<^verbatim>\<open>typeof\<close> is not \<^verbatim>\<open>'object'\<close>,
  \<^verbatim>\<open>JSON.stringify\<close> gives \<^verbatim>\<open>undefined\<close> for it, and it is never \<^verbatim>\<open>===\<close> to a configured
  value; these are the only three things the program does with a value it has read, so
  a method is represented by \<open>Undefined\<close>.
\<close>

datatype proto = ObjectProto | ArrayProto | StringProto | NumberProto | BooleanProto

datatype jsval = Undefined | Builtin proto | Val json

fun wf_json :: "json \<Rightarrow> bool" where
  "wf_json (JArr xs) = list_all wf_json xs"
| "wf_json (JObj kvs) = (distinct (map fst kvs) \<and> list_all (\<lambda>kv. wf_json (snd kv)) kvs)"
| "wf_json _ = True"

subsection \<open>Array indices as property keys\<close>

definition digit_char :: "nat \<Rightarrow> char" where
  "digit_char d = ''0123456789'' ! d"

text \<open>\<^verbatim>\<open>String(i)\<close> for an array index \<open>i\<close>: its decimal digits.\<close>

fun dec :: "nat \<Rightarrow> string" where
  "dec n = (if n < 10 then [digit_char n] else dec (n div 10) @ [digit_char (n mod 10)])"

declare dec.simps [simp del]

text \<open>
  The position a key names in an array (or string) of length \<open>n\<close>: the key must be the
  decimal form of an index below \<open>n\<close>; \<open>''01''\<close> or \<open>''1.0''\<close> name no element.
\<close>

definition index_of_key :: "nat \<Rightarrow> string \<Rightarrow> nat option" where
  "index_of_key n key = find (\<lambda>i. dec i = key) [0..<n]"

subsection \<open>The operations of the language the program uses\<close>

text \<open>\<^verbatim>\<open>typeof v === 'object' && v !== null\<close>\<close>

fun is_object :: "jsval \<Rightarrow> bool" where
  "is_object (Val (JObj kvs)) = True"
| "is_object (Val (JArr xs)) = True"
| "is_object (Builtin p) = True"
| "is_object _ = False"

text \<open>Truthiness, as \<^verbatim>\<open>!previous\<close> tests it.\<close>

fun js_truthy :: "jsval \<Rightarrow> bool" where
  "js_truthy Undefined = False"
| "js_truthy (Builtin p) = True"
| "js_truthy (Val JNull) = False"
| "js_truthy (Val (JBool b)) = b"
| "js_truthy (Val (JNum n)) = (n \<noteq> ''0'' \<and> n \<noteq> ''NaN'')"
| "js_truthy (Val (JStr s)) = (s \<noteq> [])"
| "js_truthy (Val (JArr xs)) = True"
| "js_truthy (Val (JObj kvs)) = True"

text \<open>
  The keys \<^verbatim>\<open>for (const key in v)\<close> visits, each with \<^verbatim>\<open>v[key]\<close>: the own properties
  of an object, the positions of an array, the characters of a string, and nothing for
  null, a boolean or a number. (The built-in prototypes have no enumerable property.)
\<close>

fun own_entries :: "json \<Rightarrow> (string \<times> json) list" where
  "own_entries (JObj kvs) = kvs"
| "own_entries (JArr xs) = map (\<lambda>i. (dec i, xs ! i)) [0..<length xs]"
| "own_entries (JStr s) = map (\<lambda>i. (dec i, JStr [s ! i])) [0..<length s]"
| "own_entries _ = []"

text \<open>\<^verbatim>\<open>Object.keys(v)\<close> for a \<open>v\<close> that is not null (it throws on null).\<close>

definition own_keys :: "json \<Rightarrow> string list" where
  "own_keys v = map fst (own_entries v)"

text \<open>
  The prototype of a built-in prototype object, and the data properties (other than
  methods) found from it upwards: \<^verbatim>\<open>Array.prototype\<close> is an empty array and
  \<^verbatim>\<open>String.prototype\<close> wraps the empty string, so both have \<^verbatim>\<open>length\<close> 0.
\<close>

fun proto_parent :: "proto \<Rightarrow> jsval" where
  "proto_parent ObjectProto = Val JNull"
| "proto_parent p = Builtin ObjectProto"

fun proto_data :: "proto \<Rightarrow> string \<Rightarrow> jsval" where
  "proto_data ArrayProto key = (if key = ''length'' then Val (JNum ''0'') else Undefined)"
| "proto_data StringProto key = (if key = ''length'' then Val (JNum ''0'') else Undefined)"
| "proto_data p key = Undefined"

text \<open>
  \<^verbatim>\<open>v[key]\<close>. An own property wins; an array or a string answers its positions and
  \<^verbatim>\<open>length\<close>; \<^verbatim>\<open>__proto__\<close>, when it is not an own property, is the inherited accessor
  and gives the prototype. On null and undefined the read throws; every call site tests
  for them first, and the model gives \<open>Undefined\<close> there.
\<close>

fun js_get :: "jsval \<Rightarrow> string \<Rightarrow> jsval" where
  "js_get (Val (JObj kvs)) key =
     (case map_of kvs key of
        Some v \<Rightarrow> Val v
      | None \<Rightarrow> if key = ''__proto__'' then Builtin ObjectProto else Undefined)"
| "js_get (Val (JArr xs)) key =
     (case index_of_key (length xs) key of
        Some i \<Rightarrow> Val (xs ! i)
      | None \<Rightarrow>
          if key = ''length'' then Val (JNum (dec (length xs)))
          else if key = ''__proto__'' then Builtin ArrayProto
          else Undefined)"
| "js_get (Val (JStr s)) key =
     (case index_of_key (length s) key of
        Some i \<Rightarrow> Val (JStr [s ! i])
      | None \<Rightarrow>
          if key = ''length'' then Val (JNum (dec (length s)))
          else if key = ''__proto__'' then Builtin StringProto
          else Undefined)"
| "js_get (Val (JNum n)) key = (if key = ''__proto__'' then Builtin NumberProto else Undefined)"
| "js_get (Val (JBool b)) key = (if key = ''__proto__'' then Builtin BooleanProto else Undefined)"
| "js_get (Val JNull) key = Undefined"
| "js_get (Builtin p) key = (if key = ''__proto__'' then proto_parent p else proto_data p key)"
| "js_get Undefined key = Undefined"

text \<open>
  \<^verbatim>\<open>changes[key] = v\<close> on the plain object \<^verbatim>\<open>changes\<close>: the property is replaced where
  it stands or added last. (The loop assigns keys in the enumeration order of
  \<^verbatim>\<open>current\<close>, so the last place is also where the enumeration order of \<^verbatim>\<open>changes\<close>
  puts a new key.) The key \<^verbatim>\<open>__proto__\<close> is not an own property of \<^verbatim>\<open>changes\<close>, so the
  assignment runs the inherited setter, which creates no property.
\<close>

definition obj_set :: "(string \<times> json) list \<Rightarrow> string \<Rightarrow> json \<Rightarrow> (string \<times> json) list" where
  "obj_set changes key v = (if key = ''__proto__'' then changes else AList.update key v changes)"

subsection \<open>\<^verbatim>\<open>JSON.stringify\<close>\<close>

definition hex_char :: "nat \<Rightarrow> char" where
  "hex_char d = ''0123456789abcdef'' ! d"

text \<open>One character inside a quoted string.\<close>

definition json_escape :: "char \<Rightarrow> string" where
  "json_escape c =
     (if c = CHR 0x22 then [CHR 0x5C, CHR 0x22]
      else if c = CHR 0x5C then [CHR 0x5C, CHR 0x5C]
      else if c = CHR 0x08 then [CHR 0x5C, CHR ''b'']
      else if c = CHR 0x0C then [CHR 0x5C, CHR ''f'']
      else if c = CHR 0x0A then [CHR 0x5C, CHR ''n'']
      else if c = CHR 0x0D then [CHR 0x5C, CHR ''r'']
      else if c = CHR 0x09 then [CHR 0x5C, CHR ''t'']
      else if (of_char c :: nat) < 32
        then [CHR 0x5C, CHR ''u'', CHR ''0'', CHR ''0'',
              hex_char (of_char c div 16), hex_char (of_char c mod 16)]
      else [c])"

definition json_quote :: "string \<Rightarrow> string" where
  "json_quote s = CHR 0x22 # concat (map json_escape s) @ [CHR 0x22]"

fun join_comma :: "string list \<Rightarrow> string" where
  "join_comma [] = []"
| "join_comma [x] = x"
| "join_comma (x # y # ys) = x @ '','' @ join_comma (y # ys)"

text \<open>A value inside an array or an object is smaller than it (for the recursions below).\<close>

lemma size_in_set:
  "(v :: json) \<in> set xs \<Longrightarrow> size v < Suc (size_list size xs)"
  by (induction xs) auto

lemma size_snd_in_set:
  "kv \<in> set kvs \<Longrightarrow> size (snd kv) < Suc (size_list (size_prod (\<lambda>x. 0) size) kvs)"
  by (induction kvs) auto

function stringify :: "json \<Rightarrow> string" where
  "stringify JNull = ''null''"
| "stringify (JBool b) = (if b then ''true'' else ''false'')"
| "stringify (JNum n) =
     (if n = ''Infinity'' \<or> n = ''-Infinity'' \<or> n = ''NaN'' then ''null'' else n)"
| "stringify (JStr s) = json_quote s"
| "stringify (JArr xs) = ''['' @ join_comma (map stringify xs) @ '']''"
| "stringify (JObj kvs) =
     ''{'' @ join_comma (map (\<lambda>kv. json_quote (fst kv) @ '':'' @ stringify (snd kv)) kvs) @ ''}''"
  by pat_completeness auto
termination
  by (relation "measure size") (auto dest: size_in_set size_snd_in_set)

text \<open>
  \<^verbatim>\<open>JSON.stringify(v)\<close> for any value the program reads: \<^verbatim>\<open>undefined\<close> (here \<open>None\<close>)
  for \<^verbatim>\<open>undefined\<close> and for a function, the text for a message value. The built-in
  prototypes serialise as the empty object, the empty array, and the primitive the
  wrapper prototypes hold.
\<close>

fun JSON_stringify :: "jsval \<Rightarrow> string option" where
  "JSON_stringify Undefined = None"
| "JSON_stringify (Val v) = Some (stringify v)"
| "JSON_stringify (Builtin ObjectProto) = Some ''{}''"
| "JSON_stringify (Builtin ArrayProto) = Some ''[]''"
| "JSON_stringify (Builtin StringProto) = Some [CHR 0x22, CHR 0x22]"
| "JSON_stringify (Builtin NumberProto) = Some ''0''"
| "JSON_stringify (Builtin BooleanProto) = Some ''false''"

text \<open>
  \<^verbatim>\<open>a === b\<close> for a value \<open>a\<close> read from a message and a configured value \<open>b\<close>:
  primitives are compared by value (\<^verbatim>\<open>NaN\<close> equals nothing); an array or an object of
  the configuration is never the same object as anything reached from a message.
\<close>

fun strict_eq :: "jsval \<Rightarrow> json \<Rightarrow> bool" where
  "strict_eq (Val JNull) JNull = True"
| "strict_eq (Val (JBool a)) (JBool b) = (a = b)"
| "strict_eq (Val (JNum a)) (JNum b) = (a = b \<and> a \<noteq> ''NaN'')"
| "strict_eq (Val (JStr a)) (JStr b) = (a = b)"
| "strict_eq a b = False"

section \<open>Configuration\<close>

text \<open>
  The fields of \<^verbatim>\<open>config\<close> the message path reads. \<open>condition\<close> is
  \<^verbatim>\<open>config.messageFiltering.condition\<close>, \<open>None\<close> when \<^verbatim>\<open>messageFiltering\<close> or its
  \<^verbatim>\<open>condition\<close> is missing.
\<close>

record filter_condition =
  cond_path :: string
  cond_value :: json

record config =
  ignoredKeys :: "string list"
  ignoredPaths :: "string list"
  condition :: "filter_condition option"

section \<open>getValueByPath\<close>

text \<open>\<^verbatim>\<open>path.split('.')\<close>\<close>

fun split_dot :: "string \<Rightarrow> string list" where
  "split_dot [] = [[]]"
| "split_dot (c # cs) =
     (if c = CHR ''.'' then [] # split_dot cs
      else (case split_dot cs of
              w # ws \<Rightarrow> (c # w) # ws
            | [] \<Rightarrow> [[c]]))"

text \<open>The loop over the segments.\<close>

fun getValueByPath_loop :: "jsval \<Rightarrow> string list \<Rightarrow> jsval" where
  "getValueByPath_loop current [] = current"
| "getValueByPath_loop current (key # keys) =
     (if \<not> is_object current then Undefined
      else getValueByPath_loop (js_get current key) keys)"

definition getValueByPath :: "json \<Rightarrow> string \<Rightarrow> jsval" where
  "getValueByPath obj path =
     (if path = [] then Undefined else getValueByPath_loop (Val obj) (split_dot path))"

section \<open>shouldIgnorePath\<close>

definition shouldIgnorePath :: "config \<Rightarrow> string \<Rightarrow> bool" where
  "shouldIgnorePath cfg path =
     list_ex (\<lambda>ignoredPath. ignoredPath = path \<or> prefix (ignoredPath @ ''.'') path)
       (ignoredPaths cfg)"

section \<open>detectChanges\<close>

lemma size_own_entries:
  "(key, v) \<in> set (own_entries current) \<Longrightarrow> is_object (Val v) \<Longrightarrow> size v < size current"
proof (cases current)
  case (JArr xs)
  assume "(key, v) \<in> set (own_entries current)"
  with JArr have "v \<in> set xs" by auto
  then show ?thesis using JArr size_in_set [of v xs] by simp
next
  case (JObj kvs)
  assume "(key, v) \<in> set (own_entries current)"
  with JObj show ?thesis using size_snd_in_set [of "(key, v)" kvs] by simp
qed auto

text \<open>
  The loop runs over \<open>own_entries current\<close>, so \<open>current_key\<close> below is the source's
  \<^verbatim>\<open>current[key]\<close>; \<^verbatim>\<open>continue\<close> is the loop body returning \<open>changes\<close> as it got it.
\<close>

function detectChanges :: "config \<Rightarrow> jsval \<Rightarrow> json \<Rightarrow> string \<Rightarrow> json" where
  "detectChanges cfg previous current currentPath =
     (if \<not> js_truthy previous then current
      else JObj (fold
        (\<lambda>(key, current_key) changes.
           if key \<in> set (ignoredKeys cfg) then changes
           else
             let propertyPath = (if currentPath \<noteq> [] then currentPath @ ''.'' @ key else key) in
             if shouldIgnorePath cfg propertyPath then changes
             else if is_object (Val current_key) \<and> is_object (js_get previous key) then
               (let nestedChanges =
                      detectChanges cfg (js_get previous key) current_key propertyPath in
                if own_keys nestedChanges \<noteq> [] then obj_set changes key nestedChanges
                else changes)
             else if JSON_stringify (Val current_key) \<noteq> JSON_stringify (js_get previous key)
               then obj_set changes key current_key
             else changes)
        (own_entries current) []))"
  by pat_completeness auto
termination
  by (relation "measure (\<lambda>(cfg, previous, current, currentPath). size current)")
     (auto dest: size_own_entries)

declare detectChanges.simps [simp del]

section \<open>The message handler\<close>

datatype log_line = LogChanges string | LogError | LogRaw string

text \<open>
  What one run of the handler leaves behind: the new \<^verbatim>\<open>previousMessage\<close>, the lines
  it logged, and the value of its local \<^verbatim>\<open>changes\<close> when it got as far as calling
  \<^verbatim>\<open>detectChanges\<close> (\<open>None\<close> when it did not).
\<close>

record handler_result =
  previousMessage :: json
  logged :: "log_line list"
  changes_computed :: "json option"

text \<open>
  \<open>JSON_parse\<close> is \<^verbatim>\<open>JSON.parse\<close>, \<open>None\<close> where it throws. The \<^verbatim>\<open>catch\<close> block logs
  the error and the raw message and leaves \<^verbatim>\<open>previousMessage\<close> alone. Besides a parse
  error, the \<^verbatim>\<open>try\<close> block can throw at \<^verbatim>\<open>Object.keys(changes)\<close>, when \<^verbatim>\<open>changes\<close> is
  null.
\<close>

definition on_message ::
  "(string \<Rightarrow> json option) \<Rightarrow> config \<Rightarrow> json \<Rightarrow> string \<Rightarrow> handler_result" where
  "on_message JSON_parse cfg previous message =
     (case JSON_parse message of
        None \<Rightarrow>
          \<lparr>previousMessage = previous, logged = [LogError, LogRaw message],
           changes_computed = None\<rparr>
      | Some jsonMessage \<Rightarrow>
          if (case condition cfg of
                None \<Rightarrow> False
              | Some c \<Rightarrow>
                  cond_path c \<noteq> [] \<and>
                  \<not> strict_eq (getValueByPath jsonMessage (cond_path c)) (cond_value c))
          then \<lparr>previousMessage = previous, logged = [], changes_computed = None\<rparr>
          else
            let changes = detectChanges cfg (Val previous) jsonMessage [] in
            if previous \<noteq> JNull \<and> changes = JNull
            then \<lparr>previousMessage = previous, logged = [LogError, LogRaw message],
                  changes_computed = Some changes\<rparr>
            else \<lparr>previousMessage = jsonMessage,
                  logged = (if previous \<noteq> JNull \<and> own_keys changes \<noteq> []
                            then [LogChanges (stringify changes)] else []),
                  changes_computed = Some changes\<rparr>)"


section \<open>Notions used to state the properties\<close>

text \<open>
  What one turn of the loop of \<open>detectChanges\<close> assigns to \<^verbatim>\<open>changes[key]\<close>, \<open>None\<close>
  when the turn assigns nothing: the body of the loop, read as a function of the key
  and of \<^verbatim>\<open>current[key]\<close>. Lemma \<open>detectChanges_fold\<close> below proves that
  \<open>detectChanges\<close> is the loop of these assignments.
\<close>

definition change_at :: "config \<Rightarrow> jsval \<Rightarrow> string \<Rightarrow> string \<Rightarrow> json \<Rightarrow> json option" where
  "change_at cfg previous currentPath key current_key =
     (if key \<in> set (ignoredKeys cfg) then None
      else
        let propertyPath = (if currentPath \<noteq> [] then currentPath @ ''.'' @ key else key) in
        if shouldIgnorePath cfg propertyPath then None
        else if is_object (Val current_key) \<and> is_object (js_get previous key) then
          (let nestedChanges =
                 detectChanges cfg (js_get previous key) current_key propertyPath in
           if own_keys nestedChanges \<noteq> [] then Some nestedChanges else None)
        else if JSON_stringify (Val current_key) \<noteq> JSON_stringify (js_get previous key)
          then Some current_key
        else None)"

definition assign_changes ::
  "(string \<Rightarrow> json \<Rightarrow> json option) \<Rightarrow> (string \<times> json) list \<Rightarrow>
     (string \<times> json) list \<Rightarrow> (string \<times> json) list" where
  "assign_changes d es acc =
     fold (\<lambda>(key, current_key) changes.
             case d key current_key of None \<Rightarrow> changes | Some v \<Rightarrow> obj_set changes key v)
       es acc"

text \<open>
  One step of \<open>getValueByPath\<close>: the turn of its loop for one segment, which reads the
  property \<open>key\<close> of an object or an array and gives \<^verbatim>\<open>undefined\<close> for anything else.
\<close>

definition read_property :: "jsval \<Rightarrow> string \<Rightarrow> jsval" where
  "read_property v key = (if is_object v then js_get v key else Undefined)"

text \<open>
  The mapping whose keys are the positions of a sequence, as strings:
  \<open>{"0": v0, ..., "n": vn}\<close> for \<open>[v0, ..., vn]\<close>.
\<close>

definition indexed_object :: "json list \<Rightarrow> json" where
  "indexed_object vs = JObj (map (\<lambda>i. (dec i, vs ! i)) [0..<length vs])"

section \<open>Decimal keys\<close>

lemma digit_char_inj: "a < 10 \<Longrightarrow> b < 10 \<Longrightarrow> digit_char a = digit_char b \<Longrightarrow> a = b"
proof -
  assume a: "a < 10" and b: "b < 10" and e: "digit_char a = digit_char b"
  have A: "a \<in> {0,1,2,3,4,5,6,7,8,9}" using a by auto
  have B: "b \<in> {0,1,2,3,4,5,6,7,8,9}" using b by auto
  show ?thesis using A B e by (auto simp: digit_char_def)
qed

lemma digit_char_not_dot: "d < 10 \<Longrightarrow> digit_char d \<noteq> CHR ''.''"
proof -
  assume "d < 10"
  then have "d \<in> {0,1,2,3,4,5,6,7,8,9}" by auto
  then show ?thesis by (auto simp: digit_char_def)
qed

lemma dec_not_Nil: "dec n \<noteq> []"
  by (subst dec.simps) simp

lemma dec_inj: "dec m = dec n \<Longrightarrow> m = n"
proof (induction m arbitrary: n rule: dec.induct)
  case (1 m)
  show ?case
  proof (cases "m < 10")
    case True
    show ?thesis
    proof (cases "n < 10")
      case n: True
      from "1.prems" True n have "digit_char m = digit_char n"
        by (simp add: dec.simps [of m] dec.simps [of n])
      then show ?thesis using True n by (rule digit_char_inj [rotated 2])
    next
      case False
      with "1.prems" True have "[digit_char m] = dec (n div 10) @ [digit_char (n mod 10)]"
        by (simp add: dec.simps [of m] dec.simps [of n])
      then show ?thesis using dec_not_Nil [of "n div 10"] by simp
    qed
  next
    case False
    show ?thesis
    proof (cases "n < 10")
      case True
      with "1.prems" False have "dec (m div 10) @ [digit_char (m mod 10)] = [digit_char n]"
        by (simp add: dec.simps [of m] dec.simps [of n])
      then show ?thesis using dec_not_Nil [of "m div 10"] by simp
    next
      case n: False
      from "1.prems" False n
      have "dec (m div 10) @ [digit_char (m mod 10)] = dec (n div 10) @ [digit_char (n mod 10)]"
        by (simp add: dec.simps [of m] dec.simps [of n])
      then have "dec (m div 10) = dec (n div 10)"
        and d: "digit_char (m mod 10) = digit_char (n mod 10)"
        by simp_all
      then have q: "m div 10 = n div 10" using "1.IH" False by blast
      have r: "m mod 10 = n mod 10" using d by (intro digit_char_inj) simp_all
      show ?thesis using q r by (metis div_mult_mod_eq)
    qed
  qed
qed

lemma dec_no_dot: "CHR ''.'' \<notin> set (dec n)"
proof (induction n rule: dec.induct)
  case (1 n)
  show ?case
  proof (cases "n < 10")
    case True
    then show ?thesis using digit_char_not_dot [of n] by (simp add: dec.simps [of n])
  next
    case False
    then show ?thesis using "1.IH" digit_char_not_dot [of "n mod 10"]
      by (simp add: dec.simps [of n])
  qed
qed

lemma index_of_key_dec: "i < n \<Longrightarrow> index_of_key n (dec i) = Some i"
  unfolding index_of_key_def
  by (auto simp: find_Some_iff dest: dec_inj intro!: exI [of _ i])

lemma distinct_dec_keys: "distinct (map dec [0..<n])"
  by (simp add: distinct_map inj_on_def dec_inj)

section \<open>Reading back what the loop visits\<close>

lemma js_get_own_entry:
  assumes "wf_json current" and "(key, v) \<in> set (own_entries current)"
  shows "js_get (Val current) key = Val v"
proof (cases current)
  case (JStr s)
  with assms obtain i where "i < length s" "key = dec i" "v = JStr [s ! i]" by auto
  then show ?thesis using JStr by (simp add: index_of_key_dec)
next
  case (JArr xs)
  with assms obtain i where "i < length xs" "key = dec i" "v = xs ! i" by auto
  then show ?thesis using JArr by (simp add: index_of_key_dec)
next
  case (JObj kvs)
  with assms have "map_of kvs key = Some v" by simp
  then show ?thesis using JObj by simp
qed (use assms in auto)

lemma wf_json_own_entry:
  "wf_json current \<Longrightarrow> (key, v) \<in> set (own_entries current) \<Longrightarrow> wf_json v"
  by (cases current) (auto simp: list_all_iff)

lemma wf_indexed_object: "list_all wf_json vs \<Longrightarrow> wf_json (indexed_object vs)"
  using distinct_dec_keys [of "length vs"]
  by (auto simp: indexed_object_def list_all_iff comp_def)

lemma is_object_truthy: "is_object v \<Longrightarrow> js_truthy v"
  by (cases v rule: is_object.cases) auto

section \<open>The loop of detectChanges\<close>

lemma detectChanges_fold:
  "detectChanges cfg previous current currentPath =
     (if \<not> js_truthy previous then current
      else JObj (assign_changes (change_at cfg previous currentPath) (own_entries current) []))"
  unfolding assign_changes_def
  apply (subst detectChanges.simps)
  apply (rule if_cong [OF refl refl])
  apply (rule arg_cong [where f = JObj])
  apply (rule fold_cong [OF refl refl])
  apply (auto simp: change_at_def Let_def fun_eq_iff split: prod.splits)
  done

lemma assign_changes_Nil [simp]: "assign_changes d [] acc = acc"
  by (simp add: assign_changes_def)

lemma assign_changes_Cons [simp]:
  "assign_changes d ((k, v) # es) acc =
     assign_changes d es (case d k v of None \<Rightarrow> acc | Some x \<Rightarrow> obj_set acc k x)"
  by (simp add: assign_changes_def)

lemma keys_obj_set: "fst ` set (obj_set acc k x) \<subseteq> insert k (fst ` set acc)"
  by (auto simp: obj_set_def dom_update)

lemma map_of_obj_set:
  "map_of (obj_set acc k x) k' =
     (if k' = k \<and> k \<noteq> ''__proto__'' then Some x else map_of acc k')"
  by (simp add: obj_set_def update_conv')

lemma keys_assign_changes:
  "fst ` set (assign_changes d es acc) \<subseteq> fst ` set acc \<union> fst ` set es"
proof (induction es arbitrary: acc)
  case Nil
  show ?case by simp
next
  case (Cons e es)
  obtain k v where e: "e = (k, v)" by (cases e)
  show ?case
  proof (cases "d k v")
    case None
    then show ?thesis using Cons.IH [of acc] by (auto simp: e)
  next
    case (Some x)
    have "fst ` set (assign_changes d es (obj_set acc k x))
            \<subseteq> insert k (fst ` set acc) \<union> fst ` set es"
      using Cons.IH [of "obj_set acc k x"] keys_obj_set [of acc k x] by blast
    then show ?thesis using Some by (auto simp: e)
  qed
qed

lemma map_of_assign_changes:
  "distinct (map fst es) \<Longrightarrow>
   map_of (assign_changes d es acc) k =
     (case map_of es k of
        None \<Rightarrow> map_of acc k
      | Some v \<Rightarrow>
          (case d k v of
             None \<Rightarrow> map_of acc k
           | Some x \<Rightarrow> if k = ''__proto__'' then map_of acc k else Some x))"
proof (induction es arbitrary: acc)
  case Nil
  show ?case by simp
next
  case (Cons e es)
  obtain k' v' where e: "e = (k', v')" by (cases e)
  from Cons.prems e have d: "distinct (map fst es)" and n: "k' \<notin> fst ` set es" by auto
  from n have m: "map_of es k' = None" by (simp add: map_of_eq_None_iff)
  show ?case
    using Cons.IH [OF d, of "case d k' v' of None \<Rightarrow> acc | Some x \<Rightarrow> obj_set acc k' x"] m
    by (auto simp: e map_of_obj_set split: option.splits)
qed

text \<open>A key is absent from the result when no turn of the loop assigns it.\<close>

lemma key_not_reported:
  assumes "js_truthy previous"
    and "\<And>v. (key, v) \<in> set (own_entries current) \<Longrightarrow> change_at cfg previous p key v = None"
  shows "key \<notin> set (own_keys (detectChanges cfg previous current p))"
proof -
  have "key \<notin> fst ` set (assign_changes (change_at cfg previous p) es acc)"
    if "set es \<subseteq> set (own_entries current)" and "key \<notin> fst ` set acc" for es acc
    using that
  proof (induction es arbitrary: acc)
    case Nil
    then show ?case by simp
  next
    case (Cons e es)
    obtain k v where e: "e = (k, v)" by (cases e)
    show ?case
    proof (cases "change_at cfg previous p k v")
      case None
      then show ?thesis using Cons by (simp add: e)
    next
      case (Some x)
      with Cons.prems(1) e assms(2) have "k \<noteq> key" by auto
      then have "key \<notin> fst ` set (obj_set acc k x)"
        using keys_obj_set [of acc k x] Cons.prems(2) by auto
      then show ?thesis using Cons.IH [of "obj_set acc k x"] Cons.prems(1) Some by (simp add: e)
    qed
  qed
  from this [of "own_entries current" "[]"] show ?thesis
    using assms(1) by (simp add: detectChanges_fold own_keys_def)
qed

section \<open>Comparing a value with itself\<close>

lemma self_diff_empty:
  "wf_json x \<Longrightarrow> js_truthy (Val x) \<Longrightarrow> detectChanges cfg (Val x) x p = JObj []"
proof (induction x arbitrary: p rule: measure_induct_rule [where f = size])
  case (less x)
  have "assign_changes (change_at cfg (Val x) p) es [] = []"
    if "set es \<subseteq> set (own_entries x)" for es
    using that
  proof (induction es)
    case Nil
    show ?case by simp
  next
    case (Cons e es)
    obtain k v where e: "e = (k, v)" by (cases e)
    from Cons.prems e have m: "(k, v) \<in> set (own_entries x)" by simp
    have g: "js_get (Val x) k = Val v" using js_get_own_entry [OF less.prems(1) m] .
    have w: "wf_json v" using wf_json_own_entry [OF less.prems(1) m] .
    have "detectChanges cfg (Val v) v q = JObj []" if "is_object (Val v)" for q
      using less.IH [of v q] size_own_entries [OF m that] w is_object_truthy [OF that] by blast
    then have "change_at cfg (Val x) p k v = None"
      by (auto simp: change_at_def Let_def g own_keys_def)
    then show ?case using Cons by (simp add: e)
  qed
  then show ?case using less.prems(2) by (simp add: detectChanges_fold)
qed

text \<open>
  More generally: nothing is reported when every key of \<open>current\<close> reads, in
  \<open>previous\<close>, the value it has in \<open>current\<close>.
\<close>

lemma no_change_if_same_entries:
  assumes "js_truthy previous"
    and "\<And>k v. (k, v) \<in> set (own_entries current) \<Longrightarrow> js_get previous k = Val v \<and> wf_json v"
  shows "detectChanges cfg previous current p = JObj []"
proof -
  have "assign_changes (change_at cfg previous p) es [] = []"
    if "set es \<subseteq> set (own_entries current)" for es
    using that
  proof (induction es)
    case Nil
    show ?case by simp
  next
    case (Cons e es)
    obtain k v where e: "e = (k, v)" by (cases e)
    from Cons.prems e assms(2) have g: "js_get previous k = Val v" and w: "wf_json v" by auto
    have "change_at cfg previous p k v = None"
      using self_diff_empty [OF w, of cfg] is_object_truthy [of "Val v"]
      by (auto simp: change_at_def Let_def g own_keys_def)
    then show ?case using Cons by (simp add: e)
  qed
  then show ?thesis using assms(1) by (simp add: detectChanges_fold)
qed

section \<open>Paths\<close>

lemma split_dot_not_Nil: "split_dot s \<noteq> []"
  by (induction s) (auto split: list.splits)

lemma split_dot_append:
  "split_dot (p @ CHR ''.'' # q) = split_dot p @ split_dot q"
proof (induction p)
  case Nil
  show ?case by simp
next
  case (Cons c p)
  obtain w ws where s: "split_dot p = w # ws"
    using split_dot_not_Nil [of p] by (cases "split_dot p") auto
  show ?case using Cons by (simp add: s)
qed

lemma split_dot_no_dot: "CHR ''.'' \<notin> set s \<Longrightarrow> split_dot s = [s]"
  by (induction s) auto

lemma loop_Undefined: "getValueByPath_loop Undefined keys = Undefined"
  by (cases keys) auto

lemma loop_append:
  "getValueByPath_loop current (xs @ ys) =
     getValueByPath_loop (getValueByPath_loop current xs) ys"
  by (induction xs arbitrary: current) (auto simp: loop_Undefined)

lemma getValueByPath_append:
  "path \<noteq> [] \<Longrightarrow>
   getValueByPath obj (path @ CHR ''.'' # rest) =
     getValueByPath_loop (getValueByPath obj path) (split_dot rest)"
  by (simp add: getValueByPath_def split_dot_append loop_append)


section \<open>The messages of the test publisher\<close>

text \<open>
  \<^verbatim>\<open>test-publisher.ts\<close> publishes three messages; the second changes \<open>temperature\<close> and
  \<open>device.battery\<close>, the third \<open>humidity\<close> and \<open>status\<close>.
\<close>

lemma publisher_second_message:
  "detectChanges \<lparr>ignoredKeys = [], ignoredPaths = [], condition = None\<rparr>
     (Val (JObj [(''temperature'', JNum ''22.5''), (''humidity'', JNum ''45''),
        (''status'', JStr ''normal''),
        (''device'', JObj [(''id'', JStr ''sensor-01''), (''battery'', JNum ''98''),
           (''location'', JStr ''living-room'')])]))
     (JObj [(''temperature'', JNum ''23.1''), (''humidity'', JNum ''45''),
        (''status'', JStr ''normal''),
        (''device'', JObj [(''id'', JStr ''sensor-01''), (''battery'', JNum ''97''),
           (''location'', JStr ''living-room'')])]) []
   = JObj [(''temperature'', JNum ''23.1''), (''device'', JObj [(''battery'', JNum ''97'')])]"
  by code_simp

lemma publisher_third_message:
  "detectChanges \<lparr>ignoredKeys = [], ignoredPaths = [], condition = None\<rparr>
     (Val (JObj [(''temperature'', JNum ''23.1''), (''humidity'', JNum ''45''),
        (''status'', JStr ''normal''),
        (''device'', JObj [(''id'', JStr ''sensor-01''), (''battery'', JNum ''97''),
           (''location'', JStr ''living-room'')])]))
     (JObj [(''temperature'', JNum ''23.1''), (''humidity'', JNum ''47''),
        (''status'', JStr ''warning''),
        (''device'', JObj [(''id'', JStr ''sensor-01''), (''battery'', JNum ''97''),
           (''location'', JStr ''living-room'')])]) []
   = JObj [(''humidity'', JNum ''47''), (''status'', JStr ''warning'')]"
  by code_simp

lemma ignored_key_example:
  "detectChanges \<lparr>ignoredKeys = [''temperature''], ignoredPaths = [], condition = None\<rparr>
     (Val (JObj [(''temperature'', JNum ''1''), (''humidity'', JNum ''2'')]))
     (JObj [(''temperature'', JNum ''5''), (''humidity'', JNum ''9'')]) []
   = JObj [(''humidity'', JNum ''9'')]"
  by code_simp

lemma handler_logs_second_message:
  "on_message (\<lambda>m. Some (JObj [(''temperature'', JNum ''23.1''),
        (''device'', JObj [(''battery'', JNum ''97'')])]))
     \<lparr>ignoredKeys = [], ignoredPaths = [], condition = None\<rparr>
     (JObj [(''temperature'', JNum ''22.5''), (''device'', JObj [(''battery'', JNum ''98'')])]) m
   = \<lparr>previousMessage =
        JObj [(''temperature'', JNum ''23.1''), (''device'', JObj [(''battery'', JNum ''97'')])],
      logged = [LogChanges (stringify
        (JObj [(''temperature'', JNum ''23.1''), (''device'', JObj [(''battery'', JNum ''97'')])]))],
      changes_computed =
        Some (JObj [(''temperature'', JNum ''23.1''),
                    (''device'', JObj [(''battery'', JNum ''97'')])])\<rparr>"
  by code_simp

section \<open>Properties of detectChanges\<close>

text \<open>
  C1. Comparing a mapping with itself, with no ignored key and no ignored path, reports
  nothing: the result is the empty mapping, whatever is nested in the value.
\<close>

theorem self_diff_is_empty:
  "wf_json (JObj kvs) \<Longrightarrow>
   detectChanges \<lparr>ignoredKeys = [], ignoredPaths = [], condition = c\<rparr>
     (Val (JObj kvs)) (JObj kvs) [] = JObj []"
  by (rule self_diff_empty) simp_all

theorem self_diff_is_empty_witness:
  "wf_json (JObj [(''temperature'', JNum ''22.5''), (''status'', JStr ''normal''),
      (''device'', JObj [(''id'', JStr ''sensor-01''), (''battery'', JNum ''98'')]),
      (''tags'', JArr [JStr ''a'', JObj [(''b'', JNull)]])]) \<and>
   detectChanges \<lparr>ignoredKeys = [], ignoredPaths = [], condition = None\<rparr>
     (Val (JObj [(''temperature'', JNum ''22.5''), (''status'', JStr ''normal''),
      (''device'', JObj [(''id'', JStr ''sensor-01''), (''battery'', JNum ''98'')]),
      (''tags'', JArr [JStr ''a'', JObj [(''b'', JNull)]])]))
     (JObj [(''temperature'', JNum ''22.5''), (''status'', JStr ''normal''),
      (''device'', JObj [(''id'', JStr ''sensor-01''), (''battery'', JNum ''98'')]),
      (''tags'', JArr [JStr ''a'', JObj [(''b'', JNull)]])]) [] = JObj []"
proof -
  have w: "wf_json (JObj [(''temperature'', JNum ''22.5''), (''status'', JStr ''normal''),
      (''device'', JObj [(''id'', JStr ''sensor-01''), (''battery'', JNum ''98'')]),
      (''tags'', JArr [JStr ''a'', JObj [(''b'', JNull)]])])"
    by simp
  show ?thesis using w self_diff_is_empty [OF w, of None] by simp
qed

text \<open>
  C2. When there is no previous message (\<^verbatim>\<open>previousMessage\<close> is still null, or the
  argument is \<^verbatim>\<open>undefined\<close>), \<open>detectChanges\<close> returns the current value itself, whole:
  ignored keys and ignored paths are not applied to it.
\<close>

theorem seed_returns_current:
  "detectChanges cfg (Val JNull) current currentPath = current \<and>
   detectChanges cfg Undefined current currentPath = current"
  by (simp add: detectChanges.simps [of cfg "Val JNull"] detectChanges.simps [of cfg Undefined])

theorem seed_returns_current_witness:
  "detectChanges
     \<lparr>ignoredKeys = [''temperature''], ignoredPaths = [''device.battery''], condition = None\<rparr>
     (Val JNull)
     (JObj [(''temperature'', JNum ''22.5''), (''device'', JObj [(''battery'', JNum ''98'')])]) []
   = JObj [(''temperature'', JNum ''22.5''), (''device'', JObj [(''battery'', JNum ''98'')])]"
  using seed_returns_current
    [of "\<lparr>ignoredKeys = [''temperature''], ignoredPaths = [''device.battery''],
          condition = None\<rparr>"]
  by simp

lemma deletion_example:
  "detectChanges \<lparr>ignoredKeys = [], ignoredPaths = [], condition = None\<rparr>
     (Val (JObj [(''a'', JNum ''1''), (''gone'', JNum ''2'')])) (JObj [(''a'', JNum ''5'')]) []
   = JObj [(''a'', JNum ''5'')]"
  by code_simp

text \<open>
  C3. Every key of the result of \<open>detectChanges\<close> is a key of \<open>current\<close>, for any
  previous value and any configuration; so a key that \<open>previous\<close> has and \<open>current\<close>
  lacks is never reported. (For a mapping \<open>JObj cs\<close>, \<open>own_keys\<close> is \<open>map fst cs\<close>.)
\<close>

theorem changed_keys_are_keys_of_current:
  "set (own_keys (detectChanges cfg previous current currentPath)) \<subseteq> set (own_keys current)"
  using keys_assign_changes [of "change_at cfg previous currentPath" "own_entries current" "[]"]
  by (simp add: detectChanges_fold own_keys_def)

theorem changed_keys_are_keys_of_current_witness:
  "set (own_keys (detectChanges \<lparr>ignoredKeys = [], ignoredPaths = [], condition = None\<rparr>
     (Val (JObj [(''a'', JNum ''1''), (''gone'', JNum ''2'')])) (JObj [(''a'', JNum ''5'')]) []))
   \<subseteq> set (own_keys (JObj [(''a'', JNum ''5'')])) \<and>
   ''gone'' \<notin> set (own_keys (detectChanges
     \<lparr>ignoredKeys = [], ignoredPaths = [], condition = None\<rparr>
     (Val (JObj [(''a'', JNum ''1''), (''gone'', JNum ''2'')])) (JObj [(''a'', JNum ''5'')]) []))"
  using changed_keys_are_keys_of_current
    [of "\<lparr>ignoredKeys = [], ignoredPaths = [], condition = None\<rparr>"
        "Val (JObj [(''a'', JNum ''1''), (''gone'', JNum ''2'')])" "JObj [(''a'', JNum ''5'')]" "[]"]
  by (simp add: deletion_example own_keys_def)

lemma ignored_path_example:
  "detectChanges \<lparr>ignoredKeys = [], ignoredPaths = [''device.battery''], condition = None\<rparr>
     (Val (JObj [(''device'', JObj [(''battery'', JObj [(''level'', JNum ''1'')])]),
                 (''backup'', JObj [(''battery'', JNum ''1'')])]))
     (JObj [(''device'', JObj [(''battery'', JObj [(''level'', JNum ''2'')])]),
            (''backup'', JObj [(''battery'', JNum ''2'')])]) []
   = JObj [(''backup'', JObj [(''battery'', JNum ''2'')])]"
  by code_simp

text \<open>
  C4. \<open>shouldIgnorePath\<close> holds of a path exactly when the path is one of the ignored
  paths or starts with one of them followed by a dot. With the one ignored path
  \<open>device.battery\<close>, the path \<open>device.battery.level\<close> is ignored and \<open>backup.battery\<close> is
  not.
\<close>

theorem shouldIgnorePath_iff:
  "(shouldIgnorePath cfg path \<longleftrightarrow>
      (\<exists>ignoredPath \<in> set (ignoredPaths cfg).
         path = ignoredPath \<or> (\<exists>rest. path = ignoredPath @ ''.'' @ rest))) \<and>
   shouldIgnorePath \<lparr>ignoredKeys = ks, ignoredPaths = [''device.battery''], condition = c\<rparr>
     ''device.battery.level'' \<and>
   \<not> shouldIgnorePath \<lparr>ignoredKeys = ks, ignoredPaths = [''device.battery''], condition = c\<rparr>
     ''backup.battery''"
  by (auto simp: shouldIgnorePath_def list_ex_iff prefix_def)

theorem shouldIgnorePath_iff_witness:
  "shouldIgnorePath
     \<lparr>ignoredKeys = [], ignoredPaths = [''a.b'', ''device.battery''], condition = None\<rparr>
     ''device.battery.level'' \<and>
   ''device.battery'' \<in> set (ignoredPaths
     \<lparr>ignoredKeys = [], ignoredPaths = [''a.b'', ''device.battery''], condition = None\<rparr>) \<and>
   ''device.battery.level'' = ''device.battery'' @ ''.'' @ ''level'' \<and>
   detectChanges \<lparr>ignoredKeys = [], ignoredPaths = [''device.battery''], condition = None\<rparr>
     (Val (JObj [(''device'', JObj [(''battery'', JObj [(''level'', JNum ''1'')])]),
                 (''backup'', JObj [(''battery'', JNum ''1'')])]))
     (JObj [(''device'', JObj [(''battery'', JObj [(''level'', JNum ''2'')])]),
            (''backup'', JObj [(''battery'', JNum ''2'')])]) []
   = JObj [(''backup'', JObj [(''battery'', JNum ''2'')])]"
  using shouldIgnorePath_iff
    [of "\<lparr>ignoredKeys = [], ignoredPaths = [''a.b'', ''device.battery''], condition = None\<rparr>"
        "''device.battery.level''"]
  by (simp add: ignored_path_example)

lemma nested_inner_example:
  "detectChanges \<lparr>ignoredKeys = [], ignoredPaths = [''device.battery''], condition = None\<rparr>
     (Val (JObj [(''id'', JStr ''s1''), (''battery'', JNum ''98'')]))
     (JObj [(''id'', JStr ''s1''), (''battery'', JNum ''97'')]) ''device'' = JObj []"
  by code_simp

text \<open>
  C5. When \<open>previous\<close> and \<open>current\<close> are mappings and both hold an object (or an array)
  under \<open>key\<close>, what the result holds under \<open>key\<close> is the nested result of comparing the
  two, and only when that nested result is not empty: if the nested comparison reports
  nothing (no change, or every change ignored), the result has no \<open>key\<close> at all. The
  key is also absent when it is itself ignored, and when it is \<open>__proto__\<close>.
\<close>

theorem nested_changes_only_if_nonempty:
  assumes "distinct (map fst cs)"
    and "map_of ps key = Some previous_key" and "map_of cs key = Some current_key"
    and "is_object (Val previous_key)" and "is_object (Val current_key)"
  shows "map_of (own_entries (detectChanges cfg (Val (JObj ps)) (JObj cs) currentPath)) key =
     (let propertyPath = (if currentPath \<noteq> [] then currentPath @ ''.'' @ key else key);
          nestedChanges = detectChanges cfg (Val previous_key) current_key propertyPath
      in if key \<in> set (ignoredKeys cfg) \<or> shouldIgnorePath cfg propertyPath
            \<or> own_keys nestedChanges = [] \<or> key = ''__proto__''
         then None else Some nestedChanges)"
  using assms
  by (simp add: detectChanges_fold map_of_assign_changes change_at_def Let_def)

theorem nested_changes_only_if_nonempty_witness:
  "distinct (map fst [(''device'', JObj [(''id'', JStr ''s1''), (''battery'', JNum ''97'')])]) \<and>
   map_of [(''device'', JObj [(''id'', JStr ''s1''), (''battery'', JNum ''98'')])] ''device''
     = Some (JObj [(''id'', JStr ''s1''), (''battery'', JNum ''98'')]) \<and>
   map_of [(''device'', JObj [(''id'', JStr ''s1''), (''battery'', JNum ''97'')])] ''device''
     = Some (JObj [(''id'', JStr ''s1''), (''battery'', JNum ''97'')]) \<and>
   is_object (Val (JObj [(''id'', JStr ''s1''), (''battery'', JNum ''98'')])) \<and>
   is_object (Val (JObj [(''id'', JStr ''s1''), (''battery'', JNum ''97'')])) \<and>
   own_keys (detectChanges
     \<lparr>ignoredKeys = [], ignoredPaths = [''device.battery''], condition = None\<rparr>
     (Val (JObj [(''id'', JStr ''s1''), (''battery'', JNum ''98'')]))
     (JObj [(''id'', JStr ''s1''), (''battery'', JNum ''97'')]) ''device'') = [] \<and>
   map_of (own_entries (detectChanges
     \<lparr>ignoredKeys = [], ignoredPaths = [''device.battery''], condition = None\<rparr>
     (Val (JObj [(''device'', JObj [(''id'', JStr ''s1''), (''battery'', JNum ''98'')])]))
     (JObj [(''device'', JObj [(''id'', JStr ''s1''), (''battery'', JNum ''97'')])]) [])) ''device''
     = None"
  using nested_changes_only_if_nonempty
    [of "[(''device'', JObj [(''id'', JStr ''s1''), (''battery'', JNum ''97'')])]"
        "[(''device'', JObj [(''id'', JStr ''s1''), (''battery'', JNum ''98'')])]"
        "''device''" "JObj [(''id'', JStr ''s1''), (''battery'', JNum ''98'')]"
        "JObj [(''id'', JStr ''s1''), (''battery'', JNum ''97'')]"
        "\<lparr>ignoredKeys = [], ignoredPaths = [''device.battery''], condition = None\<rparr>" "[]"]
  by (simp add: nested_inner_example own_keys_def)


text \<open>
  C8, as the specification states it, at the input it describes: \<open>previous.k\<close> is
  \<open>{a: 1, b: 2}\<close> and \<open>current.k\<close> is \<open>{b: 2, a: 1}\<close>. The two serialise differently, and
  yet \<open>k\<close> is not reported: the result is empty.
\<close>

theorem reordered_mapping_example:
  "stringify (JObj [(''a'', JNum ''1''), (''b'', JNum ''2'')])
     \<noteq> stringify (JObj [(''b'', JNum ''2''), (''a'', JNum ''1'')]) \<and>
   detectChanges \<lparr>ignoredKeys = [], ignoredPaths = [], condition = None\<rparr>
     (Val (JObj [(''k'', JObj [(''a'', JNum ''1''), (''b'', JNum ''2'')])]))
     (JObj [(''k'', JObj [(''b'', JNum ''2''), (''a'', JNum ''1'')])]) [] = JObj []"
  by code_simp

text \<open>
  C8, amended. When \<open>previous\<close> and \<open>current\<close> are mappings that hold under \<open>key\<close> two
  mappings with the same key/value pairs, in whatever order, \<open>key\<close> is not reported:
  two objects are never compared by their serialisation, \<open>detectChanges\<close> recurses
  into them, and the recursion looks each key of the current one up in the previous
  one.
\<close>

theorem reordered_mapping_not_reported:
  assumes "distinct (map fst cm)"
    and "map_of pm key = Some (JObj ps)" and "map_of cm key = Some (JObj cs)"
    and "wf_json (JObj ps)" and "set cs = set ps"
  shows "key \<notin> set (own_keys (detectChanges cfg (Val (JObj pm)) (JObj cm) currentPath))"
proof (rule key_not_reported)
  show "js_truthy (Val (JObj pm))" by simp
next
  fix v assume "(key, v) \<in> set (own_entries (JObj cm))"
  then have "map_of cm key = Some v" using assms(1) by simp
  with assms(3) have v: "v = JObj cs" by simp
  have "detectChanges cfg (Val (JObj ps)) (JObj cs) q = JObj []" for q
  proof (rule no_change_if_same_entries)
    show "js_truthy (Val (JObj ps))" by simp
  next
    fix k x assume "(k, x) \<in> set (own_entries (JObj cs))"
    then have "(k, x) \<in> set (own_entries (JObj ps))" using assms(5) by simp
    then show "js_get (Val (JObj ps)) k = Val x \<and> wf_json x"
      using js_get_own_entry [OF assms(4)] wf_json_own_entry [OF assms(4)] by blast
  qed
  then show "change_at cfg (Val (JObj pm)) currentPath key v = None"
    using assms(2) by (simp add: change_at_def Let_def v own_keys_def)
qed

theorem reordered_mapping_not_reported_witness:
  "distinct (map fst [(''k'', JObj [(''b'', JNum ''2''), (''a'', JNum ''1'')])]) \<and>
   map_of [(''k'', JObj [(''a'', JNum ''1''), (''b'', JNum ''2'')])] ''k''
     = Some (JObj [(''a'', JNum ''1''), (''b'', JNum ''2'')]) \<and>
   map_of [(''k'', JObj [(''b'', JNum ''2''), (''a'', JNum ''1'')])] ''k''
     = Some (JObj [(''b'', JNum ''2''), (''a'', JNum ''1'')]) \<and>
   wf_json (JObj [(''a'', JNum ''1''), (''b'', JNum ''2'')]) \<and>
   set [(''b'', JNum ''2''), (''a'', JNum ''1'')] = set [(''a'', JNum ''1''), (''b'', JNum ''2'')] \<and>
   ''k'' \<notin> set (own_keys (detectChanges
     \<lparr>ignoredKeys = [], ignoredPaths = [], condition = None\<rparr>
     (Val (JObj [(''k'', JObj [(''a'', JNum ''1''), (''b'', JNum ''2'')])]))
     (JObj [(''k'', JObj [(''b'', JNum ''2''), (''a'', JNum ''1'')])]) []))"
proof -
  have s: "set [(''b'', JNum ''2''), (''a'', JNum ''1'')]
      = set [(''a'', JNum ''1''), (''b'', JNum ''2'')]"
    by auto
  show ?thesis
    using s reordered_mapping_not_reported
      [of "[(''k'', JObj [(''b'', JNum ''2''), (''a'', JNum ''1'')])]"
          "[(''k'', JObj [(''a'', JNum ''1''), (''b'', JNum ''2'')])]" "''k''"
          "[(''a'', JNum ''1''), (''b'', JNum ''2'')]"
          "[(''b'', JNum ''2''), (''a'', JNum ''1'')]"
          "\<lparr>ignoredKeys = [], ignoredPaths = [], condition = None\<rparr>" "[]"]
    by simp
qed

lemma indexed_object_example:
  "indexed_object [JNum ''1'', JStr ''x''] = JObj [(''0'', JNum ''1''), (''1'', JStr ''x'')]"
  by code_simp

text \<open>
  C10. \<open>detectChanges\<close> does not tell a sequence \<open>[v0, ..., vn]\<close> from the mapping
  \<open>{"0": v0, ..., "n": vn}\<close>: when \<open>previous\<close> holds the one under \<open>key\<close> and \<open>current\<close>
  holds the other, with the same elements, \<open>key\<close> is not reported, whichever of the two
  is the sequence.
\<close>

theorem sequence_and_index_mapping_not_distinguished:
  assumes "distinct (map fst cm)" and "list_all wf_json vs"
    and "map_of pm key = Some a" and "map_of cm key = Some b"
    and "a = JArr vs \<and> b = indexed_object vs \<or> a = indexed_object vs \<and> b = JArr vs"
  shows "key \<notin> set (own_keys (detectChanges cfg (Val (JObj pm)) (JObj cm) currentPath))"
proof (rule key_not_reported)
  show "js_truthy (Val (JObj pm))" by simp
next
  fix v assume "(key, v) \<in> set (own_entries (JObj cm))"
  then have "map_of cm key = Some v" using assms(1) by simp
  with assms(4) have v: "v = b" by simp
  have wa: "wf_json a" and wb: "wf_json b"
    using assms(2,5) wf_indexed_object [of vs] by auto
  have e: "own_entries b = own_entries a"
    using assms(5) by (auto simp: indexed_object_def)
  have o: "is_object (Val a)" "is_object (Val b)"
    using assms(5) by (auto simp: indexed_object_def)
  have "detectChanges cfg (Val a) b q = JObj []" for q
  proof (rule no_change_if_same_entries)
    show "js_truthy (Val a)" using o(1) by (rule is_object_truthy)
  next
    fix k x assume "(k, x) \<in> set (own_entries b)"
    then have "(k, x) \<in> set (own_entries a)" using e by simp
    then show "js_get (Val a) k = Val x \<and> wf_json x"
      using js_get_own_entry [OF wa] wf_json_own_entry [OF wa] by blast
  qed
  then show "change_at cfg (Val (JObj pm)) currentPath key v = None"
    using o assms(3) by (simp add: change_at_def Let_def v own_keys_def)
qed

theorem sequence_and_index_mapping_not_distinguished_witness:
  "distinct (map fst [(''k'', indexed_object [JNum ''1'', JStr ''x''])]) \<and>
   list_all wf_json [JNum ''1'', JStr ''x''] \<and>
   map_of [(''k'', JArr [JNum ''1'', JStr ''x''])] ''k'' = Some (JArr [JNum ''1'', JStr ''x'']) \<and>
   map_of [(''k'', indexed_object [JNum ''1'', JStr ''x''])] ''k''
     = Some (indexed_object [JNum ''1'', JStr ''x'']) \<and>
   indexed_object [JNum ''1'', JStr ''x''] = JObj [(''0'', JNum ''1''), (''1'', JStr ''x'')] \<and>
   ''k'' \<notin> set (own_keys (detectChanges
     \<lparr>ignoredKeys = [], ignoredPaths = [], condition = None\<rparr>
     (Val (JObj [(''k'', JArr [JNum ''1'', JStr ''x''])]))
     (JObj [(''k'', JObj [(''0'', JNum ''1''), (''1'', JStr ''x'')])]) [])) \<and>
   ''k'' \<notin> set (own_keys (detectChanges
     \<lparr>ignoredKeys = [], ignoredPaths = [], condition = None\<rparr>
     (Val (JObj [(''k'', JObj [(''0'', JNum ''1''), (''1'', JStr ''x'')])]))
     (JObj [(''k'', JArr [JNum ''1'', JStr ''x''])]) []))"
  using sequence_and_index_mapping_not_distinguished
    [of "[(''k'', indexed_object [JNum ''1'', JStr ''x''])]" "[JNum ''1'', JStr ''x'']"
        "[(''k'', JArr [JNum ''1'', JStr ''x''])]" "''k''" "JArr [JNum ''1'', JStr ''x'']"
        "indexed_object [JNum ''1'', JStr ''x'']"
        "\<lparr>ignoredKeys = [], ignoredPaths = [], condition = None\<rparr>" "[]"]
    sequence_and_index_mapping_not_distinguished
    [of "[(''k'', JArr [JNum ''1'', JStr ''x''])]" "[JNum ''1'', JStr ''x'']"
        "[(''k'', indexed_object [JNum ''1'', JStr ''x''])]" "''k''"
        "indexed_object [JNum ''1'', JStr ''x'']" "JArr [JNum ''1'', JStr ''x'']"
        "\<lparr>ignoredKeys = [], ignoredPaths = [], condition = None\<rparr>" "[]"]
  by (simp add: indexed_object_example)

section \<open>Properties of getValueByPath\<close>

text \<open>
  C7, as the specification states it, fails: a path does index into a sequence. In
  \<open>{a: [10, 20]}\<close> the path \<open>a.1\<close> resolves to the second element.
\<close>

theorem getValueByPath_indexes_sequence:
  "getValueByPath (JObj [(''a'', JArr [JNum ''10'', JNum ''20''])]) ''a.1'' = Val (JNum ''20'') \<and>
   getValueByPath (JObj [(''a'', JArr [JNum ''10'', JNum ''20''])]) ''a.1'' \<noteq> Undefined"
  by code_simp

lemma sequence_example:
  "dec (Suc 0) = ''1'' \<and>
   getValueByPath (JObj [(''s'', JStr ''xy''), (''a'', JArr [JNum ''10'', JNum ''20''])]) ''a''
     = Val (JArr [JNum ''10'', JNum ''20'']) \<and>
   getValueByPath (JObj [(''s'', JStr ''xy''), (''a'', JArr [JNum ''10'', JNum ''20''])]) ''s''
     = Val (JStr ''xy'') \<and>
   read_property (Val (JArr [JNum ''10'', JNum ''20''])) ''1'' = Val (JNum ''20'') \<and>
   read_property (Val (JStr ''xy'')) ''0'' = Undefined"
  by code_simp

text \<open>
  C7, amended. \<open>getValueByPath\<close> looks the segments of a non-empty path up one after
  another, each by the property read of the language (\<open>read_property\<close>), which serves
  an array as it serves an object. The first three conjuncts determine the result for
  every non-empty path: a path of one segment; a path that starts with a dot (its first
  segment is empty); a path extended by one more segment. The next two are the stop:
  resolution that starts at, or reaches, a value that is neither an object nor an array
  (null, a boolean, a number, a string, or nothing) with segments still to go returns
  \<^verbatim>\<open>undefined\<close>. The last two are the traversal of a sequence, at the root and below
  it: a segment that is the decimal form of a position of the array selects the element
  at that position.
\<close>

theorem getValueByPath_by_segments:
  "(CHR ''.'' \<notin> set key \<and> key \<noteq> [] \<longrightarrow>
      getValueByPath obj key = read_property (Val obj) key) \<and>
   (CHR ''.'' \<notin> set key \<longrightarrow>
      getValueByPath obj (''.'' @ key) = read_property (read_property (Val obj) []) key) \<and>
   (CHR ''.'' \<notin> set key \<and> path \<noteq> [] \<longrightarrow>
      getValueByPath obj (path @ ''.'' @ key) = read_property (getValueByPath obj path) key) \<and>
   (\<not> is_object (Val obj) \<longrightarrow> getValueByPath obj path = Undefined) \<and>
   (path \<noteq> [] \<and> \<not> is_object (getValueByPath obj path) \<longrightarrow>
      getValueByPath obj (path @ ''.'' @ rest) = Undefined) \<and>
   (i < length xs \<longrightarrow> getValueByPath (JArr xs) (dec i) = Val (xs ! i)) \<and>
   (path \<noteq> [] \<and> getValueByPath obj path = Val (JArr xs) \<and> i < length xs \<longrightarrow>
      getValueByPath obj (path @ ''.'' @ dec i) = Val (xs ! i))"
proof -
  have r1: "getValueByPath obj key = read_property (Val obj) key"
    if "CHR ''.'' \<notin> set key" and "key \<noteq> []"
    using that by (simp add: getValueByPath_def split_dot_no_dot read_property_def)
  have r3: "getValueByPath obj (''.'' @ key) = read_property (read_property (Val obj) []) key"
    if "CHR ''.'' \<notin> set key"
    using that by (simp add: getValueByPath_def split_dot_no_dot read_property_def)
  have r2: "getValueByPath obj (path @ ''.'' @ key) = read_property (getValueByPath obj path) key"
    if "CHR ''.'' \<notin> set key" and "path \<noteq> []"
    using that by (simp add: getValueByPath_append split_dot_no_dot read_property_def)
  obtain k ks where s: "split_dot rest = k # ks"
    using split_dot_not_Nil [of rest] by (cases "split_dot rest") auto
  obtain k' ks' where s': "split_dot path = k' # ks'"
    using split_dot_not_Nil [of path] by (cases "split_dot path") auto
  have z: "getValueByPath obj path = Undefined" if "\<not> is_object (Val obj)"
    using that by (simp add: getValueByPath_def s')
  have a: "getValueByPath obj (path @ ''.'' @ rest) = Undefined"
    if "path \<noteq> []" and "\<not> is_object (getValueByPath obj path)"
    using that by (simp add: getValueByPath_append s)
  have d: "dec i \<noteq> []" by (rule dec_not_Nil)
  have a1: "getValueByPath (JArr xs) (dec i) = Val (xs ! i)" if "i < length xs"
    using that d
    by (simp add: getValueByPath_def split_dot_no_dot dec_no_dot index_of_key_dec)
  have b: "getValueByPath obj (path @ ''.'' @ dec i) = Val (xs ! i)"
    if "path \<noteq> []" and "getValueByPath obj path = Val (JArr xs)" and "i < length xs"
    using that
    by (simp add: getValueByPath_append split_dot_no_dot dec_no_dot index_of_key_dec)
  show ?thesis using r1 r2 r3 z a a1 b by blast
qed

theorem getValueByPath_by_segments_witness:
  "CHR ''.'' \<notin> set ''1'' \<and> ''a'' \<noteq> [] \<and> Suc 0 < length [JNum ''10'', JNum ''20''] \<and>
   dec (Suc 0) = ''1'' \<and>
   getValueByPath (JArr [JNum ''10'', JNum ''20'']) ''1'' = Val (JNum ''20'') \<and>
   getValueByPath (JObj [(''s'', JStr ''xy''), (''a'', JArr [JNum ''10'', JNum ''20''])]) ''a''
     = Val (JArr [JNum ''10'', JNum ''20'']) \<and>
   getValueByPath (JObj [(''s'', JStr ''xy''), (''a'', JArr [JNum ''10'', JNum ''20''])])
     (''a'' @ ''.'' @ ''1'') = Val (JNum ''20'') \<and>
   \<not> is_object (getValueByPath
     (JObj [(''s'', JStr ''xy''), (''a'', JArr [JNum ''10'', JNum ''20''])]) ''s'') \<and>
   getValueByPath (JObj [(''s'', JStr ''xy''), (''a'', JArr [JNum ''10'', JNum ''20''])])
     (''s'' @ ''.'' @ ''0'') = Undefined"
  using getValueByPath_by_segments
    [where obj = "JObj [(''s'', JStr ''xy''), (''a'', JArr [JNum ''10'', JNum ''20''])]"
       and key = "''1''" and path = "''a''" and rest = "''0''"
       and xs = "[JNum ''10'', JNum ''20'']" and i = "Suc 0"]
    getValueByPath_by_segments
    [where obj = "JObj [(''s'', JStr ''xy''), (''a'', JArr [JNum ''10'', JNum ''20''])]"
       and key = "''0''" and path = "''s''" and rest = "''0''"
       and xs = "[JNum ''10'', JNum ''20'']" and i = "Suc 0"]
  by (simp add: sequence_example)

section \<open>Properties of the message handler\<close>

lemma gate_example_values:
  "getValueByPath (JObj [(''print'', JObj [(''command'', JStr ''other'')])]) ''print.command''
     = Val (JStr ''other'') \<and>
   getValueByPath (JObj [(''temperature'', JNum ''1'')]) ''print.command'' = Undefined"
  by code_simp

text \<open>
  C6. With a filter condition configured, a decoded message is admitted (the handler
  goes on to call \<open>detectChanges\<close> on it) exactly when the condition's path is empty or
  the value \<open>getValueByPath\<close> finds at that path is strictly equal to the condition's
  value. A message that is not admitted is not compared: the handler returns with
  \<^verbatim>\<open>previousMessage\<close> as it was and logs nothing.
\<close>

theorem gate_admits_iff:
  assumes "JSON_parse message = Some jsonMessage" and "condition cfg = Some F"
  shows "changes_computed (on_message JSON_parse cfg previous message) =
           (if cond_path F = [] \<or>
               strict_eq (getValueByPath jsonMessage (cond_path F)) (cond_value F)
            then Some (detectChanges cfg (Val previous) jsonMessage [])
            else None) \<and>
         (changes_computed (on_message JSON_parse cfg previous message) = None \<longrightarrow>
            previousMessage (on_message JSON_parse cfg previous message) = previous \<and>
            logged (on_message JSON_parse cfg previous message) = [])"
  using assms by (auto simp: on_message_def Let_def)

theorem gate_admits_iff_witness:
  "(\<lambda>m. if m = ''x'' then Some (JObj [(''print'', JObj [(''command'', JStr ''other'')])])
         else Some (JObj [(''temperature'', JNum ''1'')])) ''x''
     = Some (JObj [(''print'', JObj [(''command'', JStr ''other'')])]) \<and>
   condition \<lparr>ignoredKeys = [], ignoredPaths = [],
       condition = Some \<lparr>cond_path = ''print.command'', cond_value = JStr ''push_status''\<rparr>\<rparr>
     = Some \<lparr>cond_path = ''print.command'', cond_value = JStr ''push_status''\<rparr> \<and>
   changes_computed (on_message
       (\<lambda>m. if m = ''x'' then Some (JObj [(''print'', JObj [(''command'', JStr ''other'')])])
             else Some (JObj [(''temperature'', JNum ''1'')]))
       \<lparr>ignoredKeys = [], ignoredPaths = [],
        condition = Some \<lparr>cond_path = ''print.command'', cond_value = JStr ''push_status''\<rparr>\<rparr>
       (JObj [(''a'', JNum ''1'')]) ''x'') = None \<and>
   previousMessage (on_message
       (\<lambda>m. if m = ''x'' then Some (JObj [(''print'', JObj [(''command'', JStr ''other'')])])
             else Some (JObj [(''temperature'', JNum ''1'')]))
       \<lparr>ignoredKeys = [], ignoredPaths = [],
        condition = Some \<lparr>cond_path = ''print.command'', cond_value = JStr ''push_status''\<rparr>\<rparr>
       (JObj [(''a'', JNum ''1'')]) ''x'') = JObj [(''a'', JNum ''1'')] \<and>
   previousMessage (on_message
       (\<lambda>m. if m = ''x'' then Some (JObj [(''print'', JObj [(''command'', JStr ''other'')])])
             else Some (JObj [(''temperature'', JNum ''1'')]))
       \<lparr>ignoredKeys = [], ignoredPaths = [],
        condition = Some \<lparr>cond_path = ''print.command'', cond_value = JStr ''push_status''\<rparr>\<rparr>
       (JObj [(''a'', JNum ''1'')]) ''y'') = JObj [(''a'', JNum ''1'')]"
  using gate_admits_iff
    [of "\<lambda>m. if m = ''x'' then Some (JObj [(''print'', JObj [(''command'', JStr ''other'')])])
              else Some (JObj [(''temperature'', JNum ''1'')])" "''x''"
        "JObj [(''print'', JObj [(''command'', JStr ''other'')])]"
        "\<lparr>ignoredKeys = [], ignoredPaths = [],
          condition = Some \<lparr>cond_path = ''print.command'', cond_value = JStr ''push_status''\<rparr>\<rparr>"
        "\<lparr>cond_path = ''print.command'', cond_value = JStr ''push_status''\<rparr>"
        "JObj [(''a'', JNum ''1'')]"]
    gate_admits_iff
    [of "\<lambda>m. if m = ''x'' then Some (JObj [(''print'', JObj [(''command'', JStr ''other'')])])
              else Some (JObj [(''temperature'', JNum ''1'')])" "''y''"
        "JObj [(''temperature'', JNum ''1'')]"
        "\<lparr>ignoredKeys = [], ignoredPaths = [],
          condition = Some \<lparr>cond_path = ''print.command'', cond_value = JStr ''push_status''\<rparr>\<rparr>"
        "\<lparr>cond_path = ''print.command'', cond_value = JStr ''push_status''\<rparr>"
        "JObj [(''a'', JNum ''1'')]"]
  by (simp add: gate_example_values)

text \<open>
  C9. A payload that \<^verbatim>\<open>JSON.parse\<close> rejects never reaches \<open>detectChanges\<close>, and
  \<^verbatim>\<open>previousMessage\<close> is afterwards what it was before; so the next message is handled
  exactly as if the malformed one had not arrived.
\<close>

theorem malformed_payload_leaves_state:
  assumes "JSON_parse message = None"
  shows "changes_computed (on_message JSON_parse cfg previous message) = None \<and>
         previousMessage (on_message JSON_parse cfg previous message) = previous \<and>
         on_message JSON_parse cfg
             (previousMessage (on_message JSON_parse cfg previous message)) next_message
           = on_message JSON_parse cfg previous next_message"
  using assms by (simp add: on_message_def)

theorem malformed_payload_leaves_state_witness:
  "(\<lambda>m. if m = ''{'' then None else Some (JObj [(''a'', JNum ''2'')])) ''{'' = None \<and>
   changes_computed (on_message (\<lambda>m. if m = ''{'' then None else Some (JObj [(''a'', JNum ''2'')]))
      \<lparr>ignoredKeys = [], ignoredPaths = [], condition = None\<rparr> (JObj [(''a'', JNum ''1'')]) ''{'')
     = None \<and>
   previousMessage (on_message (\<lambda>m. if m = ''{'' then None else Some (JObj [(''a'', JNum ''2'')]))
      \<lparr>ignoredKeys = [], ignoredPaths = [], condition = None\<rparr> (JObj [(''a'', JNum ''1'')]) ''{'')
     = JObj [(''a'', JNum ''1'')]"
  using malformed_payload_leaves_state
    [of "\<lambda>m. if m = ''{'' then None else Some (JObj [(''a'', JNum ''2'')])" "''{''"
        "\<lparr>ignoredKeys = [], ignoredPaths = [], condition = None\<rparr>" "JObj [(''a'', JNum ''1'')]"]
  by simp

end
